theory Spec2Isabelle
  imports Complex_Main "HOL-Library.AList" "HOL-Library.Sublist" "HOL-Library.Char_ord"
    "HOL-Library.List_Lexorder"
begin

section \<open>Values: decoded JSON documents and Python errors\<close>

text \<open>
  Session and Scratchpad are JSON documents that the scripts decode with \<open>json.loads\<close>
  and handle as Python dicts and lists. A decoded document is a value of \<open>json\<close>; a
  dict is an association list in insertion order (Python dicts keep it, and
  \<open>json.dumps\<close> writes it). A lookup reads the first binding of a key, an assignment
  replaces it in place or appends a new one, as \<open>d[k] = v\<close> does. Finite floats are
  rationals; NaN and the infinities are not modelled.

  A \<open>string\<close> is a list of characters, one \<open>char\<close> for each character of the Python
  \<open>str\<close>.

  Every exception the modelled code can raise is a value of \<open>error\<close>; a function that
  can raise returns \<open>error + 'a\<close>, with \<open>Inl\<close> for the exception.
\<close>

datatype json =
    JNull
  | JBool bool
  | JInt int
  | JFloat rat
  | JStr string
  | JList "json list"
  | JObj "(string \<times> json) list"

datatype error =
    JSONDecodeError
  | KeyError
  | TypeError
  | AttributeError
  | IndexError
  | FileNotFoundError
  | OSError

definition bind_err :: "error + 'a \<Rightarrow> ('a \<Rightarrow> error + 'b) \<Rightarrow> error + 'b" where
  "bind_err m f = (case m of Inl e \<Rightarrow> Inl e | Inr x \<Rightarrow> f x)"

fun is_substring :: "string \<Rightarrow> string \<Rightarrow> bool" where
  "is_substring sub [] = (sub = [])"
| "is_substring sub (c # cs) = (prefix sub (c # cs) \<or> is_substring sub cs)"

text \<open>\<open>key in obj\<close>: key membership for a dict, element membership for a list (a
  \<open>str\<close> equals only an equal \<open>str\<close>), substring test for a \<open>str\<close>; the other
  values are not iterable.\<close>

fun py_contains :: "json \<Rightarrow> string \<Rightarrow> error + bool" where
  "py_contains (JObj kvs) k = Inr (k \<in> set (map fst kvs))"
| "py_contains (JList xs) k = Inr (JStr k \<in> set xs)"
| "py_contains (JStr s) k = Inr (is_substring k s)"
| "py_contains _ k = Inl TypeError"

text \<open>\<open>obj[key] = v\<close> with a \<open>str\<close> key: only a dict accepts it.\<close>

fun py_setitem :: "json \<Rightarrow> string \<Rightarrow> json \<Rightarrow> error + json" where
  "py_setitem (JObj kvs) k v = Inr (JObj (AList.update k v kvs))"
| "py_setitem _ k v = Inl TypeError"

text \<open>\<open>obj[key]\<close> with a \<open>str\<close> key: \<open>KeyError\<close> on a dict without the key,
  \<open>TypeError\<close> on every other value.\<close>

fun py_getitem :: "json \<Rightarrow> string \<Rightarrow> error + json" where
  "py_getitem (JObj kvs) k = (case map_of kvs k of None \<Rightarrow> Inl KeyError | Some v \<Rightarrow> Inr v)"
| "py_getitem _ k = Inl TypeError"

text \<open>\<open>d.get(key, default)\<close> on the bindings of a dict.\<close>

definition dict_get :: "(string \<times> json) list \<Rightarrow> string \<Rightarrow> json \<Rightarrow> json" where
  "dict_get kvs k d = (case map_of kvs k of None \<Rightarrow> d | Some v \<Rightarrow> v)"

section \<open>Record schema: \<open>ensure_scratchpad_keys\<close> (log\_url.py) and \<open>create_scratchpad\<close> (init\_session.py)\<close>

definition scratchpad_defaults :: "(string \<times> json) list" where
  "scratchpad_defaults =
    [(''urls_visited'', JList []),
     (''urls_used'', JList []),
     (''urls_skipped'', JList []),
     (''viral_candidates'', JList []),
     (''groundbreaker_candidates'', JList []),
     (''arxiv_papers'', JList []),
     (''findings'', JList []),
     (''checkpoints'', JList [])]"

text \<open>The loop \<open>for key, default in defaults.items(): if key not in scratchpad:
  scratchpad[key] = default\<close>, over the remaining defaults.\<close>

fun ensure_keys_loop :: "(string \<times> json) list \<Rightarrow> json \<Rightarrow> error + json" where
  "ensure_keys_loop [] sp = Inr sp"
| "ensure_keys_loop ((k, d) # rest) sp =
     bind_err (py_contains sp k) (\<lambda>present.
       if present then ensure_keys_loop rest sp
       else bind_err (py_setitem sp k d) (ensure_keys_loop rest))"

definition ensure_scratchpad_keys :: "json \<Rightarrow> error + json" where
  "ensure_scratchpad_keys sp = ensure_keys_loop scratchpad_defaults sp"

text \<open>\<open>create_scratchpad\<close> reads five fields of the session with \<open>session[...]\<close>.\<close>

definition create_scratchpad :: "json \<Rightarrow> error + json" where
  "create_scratchpad session =
     bind_err (py_getitem session ''session_id'') (\<lambda>sid.
     bind_err (py_getitem session ''topic'') (\<lambda>topic.
     bind_err (py_getitem session ''workflow'') (\<lambda>workflow.
     bind_err (py_getitem session ''environment'') (\<lambda>environment.
     bind_err (py_getitem session ''started'') (\<lambda>started.
       Inr (JObj
         [(''session_id'', sid),
          (''topic'', topic),
          (''workflow'', workflow),
          (''environment'', environment),
          (''started'', started),
          (''viral_candidates'', JList []),
          (''groundbreaker_candidates'', JList []),
          (''arxiv_papers'', JList []),
          (''urls_visited'', JList []),
          (''urls_used'', JList []),
          (''urls_skipped'', JList []),
          (''findings'', JList []),
          (''checkpoints'', JList []),
          (''last_checkpoint'', JNull),
          (''last_updated'', started)]))))))"

text \<open>Whether a result is a dict that has the key.\<close>

definition has_key :: "error + json \<Rightarrow> string \<Rightarrow> bool" where
  "has_key r k = (case r of Inr (JObj kvs) \<Rightarrow> k \<in> set (map fst kvs) | _ \<Rightarrow> False)"

section \<open>The file system and the environment\<close>

text \<open>
  The scripts work on regular files and directories. The file system is a tree; a path
  is the list of names from the root. A directory is an association list of its
  entries, read through its first binding of a name. \<open>OSError\<close> stands for whichever
  subclass of it the operating system raises (\<open>FileNotFoundError\<close>,
  \<open>IsADirectoryError\<close>, \<open>NotADirectoryError\<close>, \<open>FileExistsError\<close>); the
  constructor \<open>FileNotFoundError\<close> is the one \<open>load_session\<close> raises itself.
\<close>

type_synonym path = "string list"

datatype node = File string | Dir "(string \<times> node) list"

fun lookup :: "node \<Rightarrow> path \<Rightarrow> node option" where
  "lookup n [] = Some n"
| "lookup (File c) (x # xs) = None"
| "lookup (Dir es) (x # xs) = (case map_of es x of None \<Rightarrow> None | Some n \<Rightarrow> lookup n xs)"

definition exists :: "node \<Rightarrow> path \<Rightarrow> bool" where
  "exists fs p = (lookup fs p \<noteq> None)"

definition is_file :: "node \<Rightarrow> path \<Rightarrow> bool" where
  "is_file fs p = (case lookup fs p of Some (File c) \<Rightarrow> True | _ \<Rightarrow> False)"

definition is_dir :: "node \<Rightarrow> path \<Rightarrow> bool" where
  "is_dir fs p = (case lookup fs p of Some (Dir es) \<Rightarrow> True | _ \<Rightarrow> False)"

text \<open>\<open>update_at p f fs\<close> replaces the node at the existing path \<open>p\<close> by \<open>f\<close> of it.\<close>

fun update_at :: "path \<Rightarrow> (node \<Rightarrow> error + node) \<Rightarrow> node \<Rightarrow> error + node" where
  "update_at [] f n = f n"
| "update_at (x # xs) f (File c) = Inl OSError"
| "update_at (x # xs) f (Dir es) =
     (case map_of es x of
        None \<Rightarrow> Inl OSError
      | Some n \<Rightarrow> bind_err (update_at xs f n) (\<lambda>n'. Inr (Dir (AList.update x n' es))))"

text \<open>Binding a name in a directory node, and removing it.\<close>

definition set_entry :: "string \<Rightarrow> node \<Rightarrow> node \<Rightarrow> error + node" where
  "set_entry x new d = (case d of Dir es \<Rightarrow> Inr (Dir (AList.update x new es)) | File c \<Rightarrow> Inl OSError)"


text \<open>\<open>read_text\<close>, \<open>read_bytes\<close>.\<close>

definition read_text :: "node \<Rightarrow> path \<Rightarrow> error + string" where
  "read_text fs p = (case lookup fs p of Some (File c) \<Rightarrow> Inr c | _ \<Rightarrow> Inl OSError)"

text \<open>\<open>write_text\<close>, \<open>write_bytes\<close>: the parent is a directory and the target is not
  one; the file is created or overwritten.\<close>

definition write_text :: "node \<Rightarrow> path \<Rightarrow> string \<Rightarrow> error + node" where
  "write_text fs p c =
     (if p = [] \<or> is_dir fs p then Inl OSError
      else update_at (butlast p) (set_entry (last p) (File c)) fs)"


text \<open>\<open>p.mkdir(parents=True, exist_ok=True)\<close>.\<close>

fun mkdirs :: "path \<Rightarrow> node \<Rightarrow> error + node" where
  "mkdirs p (File c) = Inl OSError"
| "mkdirs [] (Dir es) = Inr (Dir es)"
| "mkdirs (x # xs) (Dir es) =
     bind_err (mkdirs xs (case map_of es x of None \<Rightarrow> Dir [] | Some n \<Rightarrow> n))
       (\<lambda>n'. Inr (Dir (AList.update x n' es)))"

text \<open>\<open>p.iterdir()\<close>: the names in a directory, each once.\<close>

definition iterdir :: "node \<Rightarrow> path \<Rightarrow> error + string list" where
  "iterdir fs p =
     (case lookup fs p of
        Some (Dir es) \<Rightarrow> Inr (map fst (AList.clearjunk es))
      | _ \<Rightarrow> Inl OSError)"





text \<open>
  What the scripts take from the Python library and from the process environment is a
  field of \<open>env\<close>: the JSON codec, \<open>str()\<close> of a decoded value as an f-string
  formats it, \<open>Path(s)\<close>, \<open>str(path)\<close> and \<open>path / s\<close> for a string that is not a
  constant of the source, the working directory, the directory \<open>get_agent_core_dir()\<close>
  returns, the parts of \<open>urlparse\<close>, \<open>str.lower\<close>, the match of
  \<open>re.search(r'(\d{4}\.\d{4,5})', url)\<close>, the clock readings of \<open>datetime.now()\<close> in
  the formats the scripts use, the minutes from an ISO timestamp to now (none when
  \<open>datetime.fromisoformat\<close> rejects the string), and the formatting of a number with a
  given count of decimals (\<open>{x:.0f}\<close>, \<open>{x:.1f}\<close>). A theorem with a free \<open>env\<close>
  holds for every such environment.
\<close>

record env =
  loads :: "string \<Rightarrow> json option"
  dumps :: "json \<Rightarrow> string"
  py_str :: "json \<Rightarrow> string"
  to_path :: "string \<Rightarrow> path"
  path_str :: "path \<Rightarrow> string"
  cwd :: path
  agent_core_dir :: path
  netloc :: "string \<Rightarrow> string"
  url_path :: "string \<Rightarrow> string"
  lower :: "string \<Rightarrow> string"
  arxiv_id :: "string \<Rightarrow> string option"
  now_iso :: string
  now_hm :: string
  memory_date :: string
  index_date :: string
  archived_at :: string
  report_time :: string
  report_minute :: string
  joinpath :: "path \<Rightarrow> string \<Rightarrow> path"
  minutes_since :: "string \<Rightarrow> rat option"
  format_fixed :: "nat \<Rightarrow> json \<Rightarrow> string"

definition get_agent_core_dir :: "env \<Rightarrow> path" where
  "get_agent_core_dir E = agent_core_dir E"

definition get_local_agent_dir :: "env \<Rightarrow> path" where
  "get_local_agent_dir E = cwd E @ [''.agent'']"

text \<open>\<open>json.loads(path.read_text())\<close>.\<close>

definition load_json :: "env \<Rightarrow> node \<Rightarrow> path \<Rightarrow> error + json" where
  "load_json E fs p =
     bind_err (read_text fs p) (\<lambda>text.
       case loads E text of None \<Rightarrow> Inl JSONDecodeError | Some v \<Rightarrow> Inr v)"

text \<open>\<open>Path(session["paths"][key])\<close>: \<open>Path\<close> accepts a \<open>str\<close> only.\<close>

definition session_path :: "env \<Rightarrow> json \<Rightarrow> string \<Rightarrow> error + path" where
  "session_path E session key =
     bind_err (py_getitem session ''paths'') (\<lambda>paths.
     bind_err (py_getitem paths key) (\<lambda>v.
       case v of JStr s \<Rightarrow> Inr (to_path E s) | _ \<Rightarrow> Inl TypeError))"

text \<open>Truth value of a decoded value, as \<open>if x\<close> and \<open>not x\<close> test it.\<close>

fun py_truthy :: "json \<Rightarrow> bool" where
  "py_truthy JNull = False"
| "py_truthy (JBool b) = b"
| "py_truthy (JInt n) = (n \<noteq> 0)"
| "py_truthy (JFloat r) = (r \<noteq> 0)"
| "py_truthy (JStr s) = (s \<noteq> [])"
| "py_truthy (JList xs) = (xs \<noteq> [])"
| "py_truthy (JObj kvs) = (kvs \<noteq> [])"

section \<open>log\_url.py\<close>

definition black_star :: string where "black_star = [CHR 0xE2, CHR 0x98, CHR 0x85]"
definition white_star :: string where "white_star = [CHR 0xE2, CHR 0x98, CHR 0x86]"

text \<open>\<open>str(n)\<close> of an integer.\<close>

fun str_nat :: "nat \<Rightarrow> string" where
  "str_nat n =
     (if n < 10 then [''0123456789'' ! n]
      else str_nat (n div 10) @ [''0123456789'' ! (n mod 10)])"

declare str_nat.simps [simp del]

definition str_int :: "int \<Rightarrow> string" where
  "str_int i = (if i < 0 then ''-'' @ str_nat (nat (- i)) else str_nat (nat i))"

text \<open>\<open>s.split(sep)\<close> for a separator of one character, \<open>sep.join(parts)\<close>, and
  \<open>s.strip("/")\<close>.\<close>

fun split_on :: "char \<Rightarrow> string \<Rightarrow> string list" where
  "split_on c [] = [[]]"
| "split_on c (x # xs) =
     (if x = c then [] # split_on c xs
      else (case split_on c xs of [] \<Rightarrow> [[x]] | l # ls \<Rightarrow> (x # l) # ls))"


definition strip_slashes :: "string \<Rightarrow> string" where
  "strip_slashes s =
     rev (dropWhile (\<lambda>c. c = CHR ''/'') (rev (dropWhile (\<lambda>c. c = CHR ''/'') s)))"

text \<open>The parsed command line: \<open>None\<close> is an option that was not given.\<close>

record args =
  arg_url :: string
  arg_source :: "string option"
  arg_name :: "string option"
  arg_used :: bool
  arg_skipped :: bool
  arg_relevance :: int
  arg_notes :: "string option"
  arg_filter :: "string option"
  arg_stars :: "int option"

text \<open>The dict \<open>entry\<close> that \<open>main\<close> builds, with the types \<open>main\<close> gives its values.\<close>

record entry =
  url :: string
  source :: string
  name :: string
  timestamp :: string
  time :: string
  used :: bool
  skipped :: bool
  relevance :: int
  relevance_stars :: string
  notes_text :: string
  filter_tag :: string
  stars :: "int option"

definition entry_dict :: "entry \<Rightarrow> json" where
  "entry_dict e = JObj
     [(''url'', JStr (url e)),
      (''source'', JStr (source e)),
      (''name'', JStr (name e)),
      (''timestamp'', JStr (timestamp e)),
      (''time'', JStr (time e)),
      (''used'', JBool (used e)),
      (''skipped'', JBool (skipped e)),
      (''relevance'', JInt (relevance e)),
      (''relevance_stars'', JStr (relevance_stars e)),
      (''notes'', JStr (notes_text e)),
      (''filter'', JStr (filter_tag e)),
      (''stars'', (case stars e of None \<Rightarrow> JNull | Some n \<Rightarrow> JInt n))]"

definition log_url_get_current_session :: "env \<Rightarrow> node \<Rightarrow> error + json" where
  "log_url_get_current_session E fs =
     (let session_path = get_local_agent_dir E @ [''research'', ''session.json'']
      in if exists fs session_path then load_json E fs session_path else Inr JNull)"

definition detect_source :: "env \<Rightarrow> string \<Rightarrow> string" where
  "detect_source E u =
     (let domain = lower E (netloc E u) in
      if is_substring ''github.com'' domain then ''github''
      else if is_substring ''arxiv.org'' domain then ''arxiv''
      else if is_substring ''huggingface.co'' domain then ''huggingface''
      else if is_substring ''medium.com'' domain \<or> is_substring ''blog'' domain then ''blog''
      else if is_substring ''docs.'' domain \<or> is_substring ''documentation'' (lower E u)
        then ''docs''
      else if is_substring ''reddit.com'' domain then ''reddit''
      else if is_substring ''news.ycombinator.com'' domain then ''hackernews''
      else if is_substring ''twitter.com'' domain \<or> is_substring ''x.com'' domain
        then ''twitter''
      else if is_substring ''youtube.com'' domain then ''youtube''
      else ''web'')"

definition default_name :: "env \<Rightarrow> string \<Rightarrow> string \<Rightarrow> string" where
  "default_name E u path =
     (if path \<noteq> [] then take 50 (last (split_on (CHR ''/'') path)) else netloc E u)"

definition extract_name :: "env \<Rightarrow> string \<Rightarrow> string \<Rightarrow> string" where
  "extract_name E u src =
     (let path = strip_slashes (url_path E u) in
      if src = ''github'' \<and> CHR ''/'' \<in> set path then
        (let parts = split_on (CHR ''/'') path in
         if length parts \<ge> 2 then parts ! 0 @ ''/'' @ parts ! 1
         else default_name E u path)
      else if src = ''arxiv'' then
        (case arxiv_id E u of
           Some m \<Rightarrow> ''arxiv:'' @ m
         | None \<Rightarrow> default_name E u path)
      else default_name E u path)"

definition relevance_to_stars :: "int \<Rightarrow> string" where
  "relevance_to_stars r =
     (if r \<ge> 3 then black_star @ black_star @ black_star
      else if r = 2 then black_star @ black_star @ white_star
      else if r = 1 then black_star @ white_star @ white_star
      else white_star @ white_star @ white_star)"

text \<open>\<open>x or y\<close> on an optional string: \<open>None\<close> and the empty string are false.\<close>

definition str_or :: "string option \<Rightarrow> string \<Rightarrow> string" where
  "str_or x y = (case x of None \<Rightarrow> y | Some s \<Rightarrow> if s = [] then y else s)"

text \<open>The entry of \<open>main\<close> (lines 237 to 254).\<close>

definition build_entry :: "env \<Rightarrow> args \<Rightarrow> entry" where
  "build_entry E a =
     (let src = str_or (arg_source a) (detect_source E (arg_url a));
          nm = str_or (arg_name a) (extract_name E (arg_url a) src)
      in \<lparr> url = arg_url a,
           source = src,
           name = nm,
           timestamp = now_iso E,
           time = now_hm E,
           used = arg_used a,
           skipped = arg_skipped a,
           relevance = arg_relevance a,
           relevance_stars = relevance_to_stars (arg_relevance a),
           notes_text = str_or (arg_notes a) [],
           filter_tag = str_or (arg_filter a) [],
           stars = arg_stars a \<rparr>)"





definition url_entry :: "entry \<Rightarrow> json" where
  "url_entry e = JObj
     [(''url'', JStr (url e)),
      (''source'', JStr (source e)),
      (''name'', JStr (name e)),
      (''timestamp'', JStr (timestamp e)),
      (''relevance'', JInt (relevance e)),
      (''notes'', JStr (notes_text e))]"

text \<open>\<open>scratchpad[key].append(v)\<close>: the list bound to the key grows in place.\<close>

definition list_append :: "json \<Rightarrow> string \<Rightarrow> json \<Rightarrow> error + json" where
  "list_append sp k v =
     bind_err (py_getitem sp k) (\<lambda>xs.
       case xs of JList l \<Rightarrow> py_setitem sp k (JList (l @ [v])) | _ \<Rightarrow> Inl AttributeError)"

text \<open>Lines 149 to 168 of \<open>log_to_scratchpad\<close>: what it does to the decoded document.\<close>

definition apply_log_event :: "json \<Rightarrow> entry \<Rightarrow> error + json" where
  "apply_log_event scratchpad e =
     bind_err (ensure_scratchpad_keys scratchpad) (\<lambda>sp0.
     bind_err (list_append sp0 ''urls_visited'' (url_entry e)) (\<lambda>sp1.
     bind_err (if used e then list_append sp1 ''urls_used'' (JStr (url e))
               else if skipped e then list_append sp1 ''urls_skipped'' (JStr (url e))
               else Inr sp1) (\<lambda>sp2.
       py_setitem sp2 ''last_updated'' (JStr (timestamp e)))))"






section \<open>archive\_session.py\<close>

definition archive_get_current_session :: "env \<Rightarrow> node \<Rightarrow> error + json" where
  "archive_get_current_session E fs =
     (let local_dir = get_local_agent_dir E @ [''research''];
          session_file = local_dir @ [''session.json'']
      in if exists fs session_file
         then bind_err (read_text fs session_file) (\<lambda>text.
                case loads E text of None \<Rightarrow> Inr JNull | Some v \<Rightarrow> Inr v)
         else Inr JNull)"


text \<open>\<open>obj.get(key, default)\<close>: only a dict has the method. \<open>len(x)\<close>, \<open>for item in x\<close>,
  \<open>x[0]\<close> and \<open>x[:n]\<close> on a decoded value; the keys of a decoded dict are strings, so
  \<open>x[0]\<close> finds none, and a dict takes no slice.\<close>

fun py_get :: "json \<Rightarrow> string \<Rightarrow> json \<Rightarrow> error + json" where
  "py_get (JObj kvs) k d = Inr (dict_get kvs k d)"
| "py_get _ k d = Inl AttributeError"

fun py_len :: "json \<Rightarrow> error + nat" where
  "py_len (JStr s) = Inr (length s)"
| "py_len (JList xs) = Inr (length xs)"
| "py_len (JObj kvs) = Inr (length (AList.clearjunk kvs))"
| "py_len _ = Inl TypeError"


fun py_first :: "json \<Rightarrow> error + json" where
  "py_first (JList []) = Inl IndexError"
| "py_first (JList (x # xs)) = Inr x"
| "py_first (JStr []) = Inl IndexError"
| "py_first (JStr (c # cs)) = Inr (JStr [c])"
| "py_first (JObj kvs) = Inl KeyError"
| "py_first _ = Inl TypeError"

fun py_take :: "nat \<Rightarrow> json \<Rightarrow> error + json" where
  "py_take n (JStr s) = Inr (JStr (take n s))"
| "py_take n (JList xs) = Inr (JList (take n xs))"
| "py_take n _ = Inl TypeError"

record url_stats =
  stat_total :: nat
  stat_used :: nat
  stat_skipped :: nat




















text \<open>Lines 289 to 296 of \<open>archive_session\<close>: the key finding.\<close>

definition key_finding_of :: "json \<Rightarrow> url_stats \<Rightarrow> error + json" where
  "key_finding_of scratchpad stats =
     bind_err (py_get scratchpad ''viral_candidates'' JNull) (\<lambda>viral.
       if py_truthy viral then
         bind_err (bind_err (py_getitem scratchpad ''viral_candidates'') py_first) (\<lambda>first.
           case first of
             JObj kvs \<Rightarrow> Inr (dict_get kvs ''name'' (JStr ''See report''))
           | _ \<Rightarrow> Inr (JStr ''See report''))
       else
         bind_err (py_get scratchpad ''urls_used'' JNull) (\<lambda>urls_used.
           if py_truthy urls_used then Inr (JStr (str_nat (stat_used stats) @ '' URLs used''))
           else Inr (JStr ''See report'')))"

text \<open>Lines 158 to 160 of \<open>update_session_index\<close>: \<open>key_finding[:37] + "..."\<close> needs a
  \<open>str\<close>.\<close>

definition truncate_key_finding :: "json \<Rightarrow> error + json" where
  "truncate_key_finding key_finding =
     bind_err (py_len key_finding) (\<lambda>n.
       if n > 40 then
         bind_err (py_take 37 key_finding) (\<lambda>h.
           case h of JStr s \<Rightarrow> Inr (JStr (s @ ''...'')) | _ \<Rightarrow> Inl TypeError)
       else Inr key_finding)"

















section \<open>init\_session.py: \<open>load_session\<close>\<close>

text \<open>The loop \<open>for file in global_dir.iterdir(): if file.is_file(): (local_dir /
  file.name).write_bytes(file.read_bytes())\<close>.\<close>

definition copy_file :: "path \<Rightarrow> path \<Rightarrow> string \<Rightarrow> node \<Rightarrow> error + node" where
  "copy_file global_dir local_dir n fs =
     (if is_file fs (global_dir @ [n])
      then bind_err (read_text fs (global_dir @ [n])) (write_text fs (local_dir @ [n]))
      else Inr fs)"

fun copy_files :: "path \<Rightarrow> path \<Rightarrow> string list \<Rightarrow> node \<Rightarrow> error + node" where
  "copy_files global_dir local_dir [] fs = Inr fs"
| "copy_files global_dir local_dir (n # ns) fs =
     bind_err (copy_file global_dir local_dir n fs) (copy_files global_dir local_dir ns)"

text \<open>The session as \<open>load_session\<close> changes it: \<open>status\<close>, \<open>resumed_at\<close> and
  \<open>paths.local\<close>.\<close>

definition resumed_session :: "env \<Rightarrow> json \<Rightarrow> error + json" where
  "resumed_session E session =
     bind_err (py_setitem session ''status'' (JStr ''resumed'')) (\<lambda>s1.
       py_setitem s1 ''resumed_at'' (JStr (now_iso E)))"

definition set_local_path :: "env \<Rightarrow> path \<Rightarrow> json \<Rightarrow> error + json" where
  "set_local_path E local_dir session =
     bind_err (py_getitem session ''paths'') (\<lambda>paths.
     bind_err (py_setitem paths ''local'' (JStr (path_str E local_dir))) (\<lambda>paths'.
       py_setitem session ''paths'' paths'))"

definition load_session :: "env \<Rightarrow> string \<Rightarrow> node \<Rightarrow> error + (json \<times> node)" where
  "load_session E session_id fs =
     (let global_dir = joinpath E (get_agent_core_dir E @ [''sessions'']) session_id;
          metadata_path = global_dir @ [''session.json'']
      in if \<not> exists fs metadata_path then Inl FileNotFoundError
         else
           bind_err (load_json E fs metadata_path) (\<lambda>session.
           bind_err (resumed_session E session) (\<lambda>session1.
           (let local_dir = get_local_agent_dir E @ [''research''] in
            bind_err (mkdirs local_dir fs) (\<lambda>fs1.
            bind_err (iterdir fs1 global_dir) (\<lambda>names.
            bind_err (copy_files global_dir local_dir names fs1) (\<lambda>fs2.
            bind_err (set_local_path E local_dir session1) (\<lambda>session2.
            bind_err (write_text fs2 (local_dir @ [''session.json'']) (dumps E session2)) (\<lambda>fs3.
              Inr (session2, fs3))))))))))"

section \<open>Reading documents and results\<close>

text \<open>The value that a resulting document binds to a key.\<close>

definition result_field :: "error + json \<Rightarrow> string \<Rightarrow> error + json" where
  "result_field r k = bind_err r (\<lambda>sp. py_getitem sp k)"

text \<open>The sequence a Scratchpad holds under a key (empty when the key is absent), and
  whether the key is absent or bound to a sequence.\<close>

definition seq_of :: "(string \<times> json) list \<Rightarrow> string \<Rightarrow> json list" where
  "seq_of kvs k = (case map_of kvs k of Some (JList xs) \<Rightarrow> xs | _ \<Rightarrow> [])"

definition is_seq_or_absent :: "(string \<times> json) list \<Rightarrow> string \<Rightarrow> bool" where
  "is_seq_or_absent kvs k =
     (case map_of kvs k of None \<Rightarrow> True | Some (JList xs) \<Rightarrow> True | Some _ \<Rightarrow> False)"

section \<open>The specification's wording of \<open>derive_learnings\<close>\<close>

text \<open>
  The Learnings as the specification words them, to compare with \<open>extract_learnings\<close>:
  the records among the viral candidates as tools, then those among the groundbreaker
  candidates as innovations, then those among the arXiv papers as papers, then, walking
  \<open>urls_visited\<close>, each record of relevance at least 3 whose URL is not the url of an
  earlier Learning, as a resource.
\<close>

definition dicts_of :: "json list \<Rightarrow> (string \<times> json) list list" where
  "dicts_of xs = concat (map (\<lambda>x. case x of JObj kvs \<Rightarrow> [kvs] | _ \<Rightarrow> []) xs)"






section \<open>Example inputs\<close>

text \<open>An entry as \<open>log_url.py https://example.com --used --relevance 3\<close> builds it, and
  the command line \<open>log_url.py https://example.com --used --skipped\<close>.\<close>

definition example_entry :: entry where
  "example_entry =
     \<lparr> url = ''https://example.com'', source = ''web'', name = ''example.com'',
       timestamp = ''2026-01-05T10:30:00'', time = ''10:30'', used = True, skipped = False,
       relevance = 3, relevance_stars = black_star @ black_star @ black_star,
       notes_text = [], filter_tag = [], stars = None \<rparr>"

definition both_flags :: args where
  "both_flags =
     \<lparr> arg_url = ''https://example.com'', arg_source = None, arg_name = None,
       arg_used = True, arg_skipped = True, arg_relevance = 2, arg_notes = None,
       arg_filter = None, arg_stars = None \<rparr>"

text \<open>An example session with its Scratchpad, an environment whose decoder knows the
  two document texts, and a file system holding the session in the local tier.\<close>

definition example_session :: json where
  "example_session = JObj
     [(''session_id'', JStr ''agents-20260105-103000-ab12cd''),
      (''topic'', JStr ''agents''),
      (''workflow'', JStr ''research''),
      (''environment'', JStr ''cli''),
      (''started'', JStr ''2026-01-05T10:30:00''),
      (''status'', JStr ''active''),
      (''queries'', JObj [(''viral'', JObj [(''github'', JStr ''agents stars:>500'')]),
                          (''groundbreaker'', JObj [(''github'', JStr ''agents stars:10..200'')])]),
      (''paths'', JObj [(''local'', JStr ''/work/.agent/research''),
                        (''session_log'', JStr ''/work/.agent/research/session_log.md''),
                        (''scratchpad'', JStr ''/work/.agent/research/scratchpad.json''),
                        (''sources'', JStr ''/work/.agent/research/agents_sources.csv'')]),
      (''stats'', JObj [(''urls_visited'', JInt 0), (''urls_used'', JInt 0),
                        (''checkpoints'', JInt 0), (''last_sync'', JNull)])]"

definition example_scratchpad :: json where
  "example_scratchpad = JObj
     [(''urls_visited'', JList [url_entry example_entry]),
      (''urls_used'', JList [JStr ''https://example.com''])]"

definition example_str :: "json \<Rightarrow> string" where
  "example_str v =
     (case v of JStr s \<Rightarrow> s | JInt n \<Rightarrow> str_int n | JNull \<Rightarrow> ''None''
      | JBool b \<Rightarrow> (if b then ''True'' else ''False'') | _ \<Rightarrow> ''...'')"

definition example_env :: env where
  "example_env =
     \<lparr> loads = (\<lambda>s. if s = ''<session>'' then Some example_session
                     else if s = ''<scratchpad>'' then Some example_scratchpad else None),
       dumps = (\<lambda>v. if v = example_session then ''<session>'' else ''<document>''),
       py_str = example_str,
       to_path = (\<lambda>s. filter (\<lambda>c. c \<noteq> []) (split_on (CHR ''/'') s)),
       path_str = (\<lambda>p. concat (map (\<lambda>c. ''/'' @ c) p)),
       cwd = [''work''],
       agent_core_dir = [''home'', ''.agent-core''],
       netloc = (\<lambda>u. u),
       url_path = (\<lambda>u. []),
       lower = (\<lambda>u. u),
       arxiv_id = (\<lambda>u. None),
       now_iso = ''2026-01-05T12:00:00'',
       now_hm = ''12:00'',
       memory_date = ''2026-01-05'',
       index_date = ''2026-01-05'',
       archived_at = ''2026-01-05T12:00:00'',
       report_time = ''2026-01-05T12:00:00'',
       report_minute = ''2026-01-05 12:00'',
       joinpath = (\<lambda>p s. p @ [s]),
       minutes_since = (\<lambda>s. if s = ''2026-01-05T10:30:00'' then Some 90 else None),
       format_fixed = (\<lambda>d v. ''90'') \<rparr>"


text \<open>A file system holding the example session in the global tier only.\<close>

definition example_global_fs :: node where
  "example_global_fs = Dir
     [(''work'', Dir []),
      (''home'', Dir [(''.agent-core'', Dir [(''sessions'', Dir
         [(''agents-20260105-103000-ab12cd'', Dir
            [(''session.json'', File ''<session>''),
             (''scratchpad.json'', File ''<scratchpad>''),
             (''drafts'', Dir [(''a.md'', File ''draft'')])])])])])]"

section \<open>Schema defaulting\<close>

lemma bind_err_simps [simp]:
  "bind_err (Inl e) f = Inl e"
  "bind_err (Inr x) f = f x"
  by (simp_all add: bind_err_def)

lemma bind_err_Inr_iff: "bind_err m f = Inr y \<longleftrightarrow> (\<exists>x. m = Inr x \<and> f x = Inr y)"
  by (cases m) simp_all

lemma bind_err_inr: "bind_err m Inr = m"
  by (cases m) simp_all

lemma ensure_keys_loop_dict:
  "distinct (map fst ds) \<Longrightarrow>
   ensure_keys_loop ds (JObj kvs) =
     Inr (JObj (kvs @ filter (\<lambda>(k, d). k \<notin> set (map fst kvs)) ds))"
proof (induction ds arbitrary: kvs)
  case Nil
  show ?case by simp
next
  case (Cons p ds)
  obtain k d where p: "p = (k, d)" by (cases p)
  from Cons.prems p have fresh: "k \<notin> set (map fst ds)" and dist: "distinct (map fst ds)"
    by simp_all
  show ?case
  proof (cases "k \<in> set (map fst kvs)")
    case True
    with Cons.IH [OF dist, of kvs] p show ?thesis by simp
  next
    case False
    have upd: "AList.update k d kvs = kvs @ [(k, d)]"
      using False by (induction kvs) auto
    have keep: "filter (\<lambda>(k', d'). k' \<notin> set (map fst (kvs @ [(k, d)]))) ds
                = filter (\<lambda>(k', d'). k' \<notin> set (map fst kvs)) ds"
      using fresh by (intro filter_cong) (auto simp: rev_image_eqI)
    from Cons.IH [OF dist, of "kvs @ [(k, d)]"] p False upd keep
    show ?thesis by simp
  qed
qed

lemma distinct_scratchpad_defaults: "distinct (map fst scratchpad_defaults)"
  by (simp add: scratchpad_defaults_def)

lemma ensure_scratchpad_keys_dict:
  "ensure_scratchpad_keys (JObj kvs) =
     Inr (JObj (kvs @ filter (\<lambda>(k, d). k \<notin> set (map fst kvs)) scratchpad_defaults))"
  unfolding ensure_scratchpad_keys_def
  by (rule ensure_keys_loop_dict [OF distinct_scratchpad_defaults])


lemma map_of_filter_keys:
  "k \<notin> set (map fst kvs) \<Longrightarrow>
   map_of (filter (\<lambda>(k', d). k' \<notin> set (map fst kvs)) ds) k = map_of ds k"
  by (induction ds) (auto simp del: set_map)

lemma map_of_filter_absent:
  "map_of (kvs @ filter (\<lambda>(k, d). k \<notin> set (map fst kvs)) ds) k =
     (case map_of kvs k of Some v \<Rightarrow> Some v | None \<Rightarrow> map_of ds k)"
proof (cases "map_of kvs k")
  case None
  then have "k \<notin> set (map fst kvs)" by (simp add: map_of_eq_None_iff)
  then have "map_of (filter (\<lambda>(k, d). k \<notin> set (map fst kvs)) ds) k = map_of ds k"
    by (rule map_of_filter_keys)
  with None show ?thesis by (simp add: map_add_def)
next
  case (Some v)
  then show ?thesis by (simp add: map_add_def)
qed

lemma ensure_scratchpad_keys_lookup:
  "\<exists>kvs'. ensure_scratchpad_keys (JObj kvs) = Inr (JObj kvs') \<and>
     (\<forall>k. map_of kvs' k =
        (case map_of kvs k of Some v \<Rightarrow> Some v | None \<Rightarrow> map_of scratchpad_defaults k))"
proof (intro exI conjI allI)
  show "ensure_scratchpad_keys (JObj kvs) =
     Inr (JObj (kvs @ filter (\<lambda>(k, d). k \<notin> set (map fst kvs)) scratchpad_defaults))"
    by (rule ensure_scratchpad_keys_dict)
  show "map_of (kvs @ filter (\<lambda>(k, d). k \<notin> set (map fst kvs)) scratchpad_defaults) k =
     (case map_of kvs k of Some v \<Rightarrow> Some v | None \<Rightarrow> map_of scratchpad_defaults k)" for k
    by (rule map_of_filter_absent)
qed

lemma ensure_keys_loop_other:
  "\<forall>kvs. x \<noteq> JObj kvs \<Longrightarrow>
   ensure_keys_loop ds x = Inr x \<or> ensure_keys_loop ds x = Inl TypeError"
proof (induction ds)
  case Nil
  show ?case by simp
next
  case (Cons p ds)
  obtain k d where p: "p = (k, d)" by (cases p)
  have s: "py_setitem x k d = Inl TypeError"
    using Cons.prems by (cases x) simp_all
  show ?case
  proof (cases "py_contains x k")
    case (Inl e)
    then have "e = TypeError" by (cases x) simp_all
    with Inl p show ?thesis by simp
  next
    case (Inr b)
    with Cons.IH [OF Cons.prems] p s show ?thesis by (cases b) simp_all
  qed
qed

lemma filter_absent_again:
  "filter (\<lambda>(k, d). k \<notin> set (map fst (kvs @ filter (\<lambda>(k, d). k \<notin> set (map fst kvs)) ds))) ds
   = []"
proof -
  have "k \<in> set (map fst (kvs @ filter (\<lambda>(k, d). k \<notin> set (map fst kvs)) ds))"
    if kd: "(k, d) \<in> set ds" for k d
  proof (cases "k \<in> set (map fst kvs)")
    case True
    then show ?thesis by simp
  next
    case False
    with kd have "(k, d) \<in> set (filter (\<lambda>(k, d). k \<notin> set (map fst kvs)) ds)" by simp
    then have "fst (k, d) \<in> fst ` set (filter (\<lambda>(k, d). k \<notin> set (map fst kvs)) ds)"
      by (rule imageI)
    then show ?thesis by simp
  qed
  then show ?thesis unfolding filter_empty_conv by blast
qed

lemma ensure_scratchpad_keys_twice:
  "bind_err (ensure_scratchpad_keys sp) ensure_scratchpad_keys = ensure_scratchpad_keys sp"
proof (cases "\<exists>kvs. sp = JObj kvs")
  case True
  then obtain kvs where "sp = JObj kvs" by blast
  then show ?thesis
    by (simp only: ensure_scratchpad_keys_dict bind_err_simps filter_absent_again append_Nil2)
next
  case False
  then have "ensure_scratchpad_keys sp = Inr sp \<or> ensure_scratchpad_keys sp = Inl TypeError"
    unfolding ensure_scratchpad_keys_def using ensure_keys_loop_other by blast
  then show ?thesis by auto
qed

lemma ensure_scratchpad_keys_complete:
  assumes "list_all (\<lambda>k. k \<in> set (map fst kvs)) (map fst scratchpad_defaults)"
  shows "ensure_scratchpad_keys (JObj kvs) = Inr (JObj kvs)"
proof -
  have "filter (\<lambda>(k, d). k \<notin> set (map fst kvs)) scratchpad_defaults = []"
    using assms by (force simp: list_all_iff filter_empty_conv)
  then show ?thesis by (simp only: ensure_scratchpad_keys_dict append_Nil2)
qed

lemma ensure_created_scratchpad:
  assumes "create_scratchpad session = Inr sp"
  shows "ensure_scratchpad_keys sp = Inr sp"
proof -
  from assms obtain sid topic workflow environment started where
    sp: "sp = JObj
         [(''session_id'', sid),
          (''topic'', topic),
          (''workflow'', workflow),
          (''environment'', environment),
          (''started'', started),
          (''viral_candidates'', JList []),
          (''groundbreaker_candidates'', JList []),
          (''arxiv_papers'', JList []),
          (''urls_visited'', JList []),
          (''urls_used'', JList []),
          (''urls_skipped'', JList []),
          (''findings'', JList []),
          (''checkpoints'', JList []),
          (''last_checkpoint'', JNull),
          (''last_updated'', started)]"
    unfolding create_scratchpad_def bind_err_Inr_iff by blast
  show ?thesis
    unfolding sp by (rule ensure_scratchpad_keys_complete) (simp add: scratchpad_defaults_def)
qed

text \<open>
  Claim C4, as the code has it. Defaulting a Scratchpad document keeps every key the
  document has, with its value, and adds each of the eight sequence keys of
  \<open>scratchpad_defaults\<close> that is absent, bound to the empty sequence. No other key is
  added: \<open>last_checkpoint\<close> and \<open>last_updated\<close> are present afterwards only if they
  were present before.
\<close>

theorem ensure_scratchpad_keys_fills_sequences:
  "\<exists>kvs'. ensure_scratchpad_keys (JObj kvs) = Inr (JObj kvs') \<and>
     (\<forall>k. map_of kvs' k =
        (case map_of kvs k of
           Some v \<Rightarrow> Some v
         | None \<Rightarrow>
             if k \<in> {''urls_visited'', ''urls_used'', ''urls_skipped'', ''viral_candidates'',
                      ''groundbreaker_candidates'', ''arxiv_papers'', ''findings'',
                      ''checkpoints''}
             then Some (JList []) else None))"
proof -
  have d: "map_of scratchpad_defaults k =
      (if k \<in> {''urls_visited'', ''urls_used'', ''urls_skipped'', ''viral_candidates'',
                ''groundbreaker_candidates'', ''arxiv_papers'', ''findings'', ''checkpoints''}
       then Some (JList []) else None)" for k
    by (simp add: scratchpad_defaults_def)
  show ?thesis
    using ensure_scratchpad_keys_lookup [of kvs] unfolding d .
qed

text \<open>
  Claim C4 as stated fails: after defaulting a document that has only \<open>urls_visited\<close>,
  the keys \<open>last_checkpoint\<close> and \<open>last_updated\<close> are still absent.
\<close>

theorem ensure_scratchpad_keys_no_last_checkpoint:
  "\<not> has_key (ensure_scratchpad_keys (JObj [(''urls_visited'', JList [])])) ''last_checkpoint''
   \<and> \<not> has_key (ensure_scratchpad_keys (JObj [(''urls_visited'', JList [])])) ''last_updated''"
  by (simp add: ensure_scratchpad_keys_dict has_key_def scratchpad_defaults_def)

text \<open>
  Claim C8. Defaulting a Scratchpad that already has the eight defaulted keys (so also
  one that has all the defined keys) returns it unchanged, and defaulting twice is
  defaulting once, on every decoded document.
\<close>

theorem ensure_scratchpad_keys_idempotent:
  "(list_all (\<lambda>k. k \<in> set (map fst kvs)) (map fst scratchpad_defaults) \<longrightarrow>
      ensure_scratchpad_keys (JObj kvs) = Inr (JObj kvs))
   \<and> bind_err (ensure_scratchpad_keys sp) ensure_scratchpad_keys = ensure_scratchpad_keys sp"
  using ensure_scratchpad_keys_complete ensure_scratchpad_keys_twice by blast

theorem ensure_scratchpad_keys_idempotent_witness:
  "list_all (\<lambda>k. k \<in> set (map fst (scratchpad_defaults @ [(''last_updated'', JNull)])))
     (map fst scratchpad_defaults)
   \<and> ensure_scratchpad_keys (JObj (scratchpad_defaults @ [(''last_updated'', JNull)]))
       = Inr (JObj (scratchpad_defaults @ [(''last_updated'', JNull)]))
   \<and> bind_err (ensure_scratchpad_keys (JObj [(''findings'', JList [JStr ''f''])]))
        ensure_scratchpad_keys
       = ensure_scratchpad_keys (JObj [(''findings'', JList [JStr ''f''])])"
proof -
  have h: "list_all (\<lambda>k. k \<in> set (map fst (scratchpad_defaults @ [(''last_updated'', JNull)])))
     (map fst scratchpad_defaults)"
    by (simp add: scratchpad_defaults_def)
  show ?thesis
    using h ensure_scratchpad_keys_idempotent
      [of "scratchpad_defaults @ [(''last_updated'', JNull)]"
          "JObj [(''findings'', JList [JStr ''f''])]"]
    by blast
qed

section \<open>Applying a log event\<close>

lemma list_append_dict:
  "map_of kvs k = Some (JList xs) \<Longrightarrow>
   list_append (JObj kvs) k v = Inr (JObj (AList.update k (JList (xs @ [v])) kvs))"
  by (simp add: list_append_def)

lemma defaulted_seq:
  "is_seq_or_absent kvs k \<Longrightarrow> map_of scratchpad_defaults k = Some (JList []) \<Longrightarrow>
   (case map_of kvs k of Some v \<Rightarrow> Some v | None \<Rightarrow> map_of scratchpad_defaults k)
     = Some (JList (seq_of kvs k))"
  by (cases "map_of kvs k") (simp_all add: is_seq_or_absent_def seq_of_def split: json.splits)

text \<open>
  Claim C1, as the code has it. Applying a log entry to a Scratchpad whose three URL
  sequences are sequences (or absent, then defaulted to empty) succeeds; it appends to
  \<open>urls_visited\<close> a record of the entry's url, source, name, timestamp, relevance and
  notes (\<open>url_entry\<close>, without the entry's used, skipped, filter and stars), appends
  the entry's URL to \<open>urls_used\<close> exactly when the entry is used, else to
  \<open>urls_skipped\<close> exactly when it is skipped, sets \<open>last_updated\<close> to the entry's
  timestamp, and leaves every other key as schema defaulting leaves it.
\<close>

theorem apply_log_event_appends:
  assumes "is_seq_or_absent kvs ''urls_visited''"
      and "is_seq_or_absent kvs ''urls_used''"
      and "is_seq_or_absent kvs ''urls_skipped''"
  shows "\<exists>kvs'. apply_log_event (JObj kvs) e = Inr (JObj kvs') \<and>
     map_of kvs' ''urls_visited'' = Some (JList (seq_of kvs ''urls_visited'' @ [url_entry e])) \<and>
     map_of kvs' ''urls_used'' =
       Some (JList (seq_of kvs ''urls_used'' @ (if used e then [JStr (url e)] else []))) \<and>
     map_of kvs' ''urls_skipped'' =
       Some (JList (seq_of kvs ''urls_skipped''
                    @ (if \<not> used e \<and> skipped e then [JStr (url e)] else []))) \<and>
     map_of kvs' ''last_updated'' = Some (JStr (timestamp e)) \<and>
     (\<forall>k. k \<notin> {''urls_visited'', ''urls_used'', ''urls_skipped'', ''last_updated''} \<longrightarrow>
        map_of kvs' k =
          (case map_of kvs k of Some v \<Rightarrow> Some v | None \<Rightarrow> map_of scratchpad_defaults k))"
proof -
  obtain k0 where e0: "ensure_scratchpad_keys (JObj kvs) = Inr (JObj k0)"
    and m0: "\<And>k. map_of k0 k =
      (case map_of kvs k of Some v \<Rightarrow> Some v | None \<Rightarrow> map_of scratchpad_defaults k)"
    using ensure_scratchpad_keys_lookup [of kvs] by blast
  have dv: "map_of scratchpad_defaults ''urls_visited'' = Some (JList [])"
    and du: "map_of scratchpad_defaults ''urls_used'' = Some (JList [])"
    and ds: "map_of scratchpad_defaults ''urls_skipped'' = Some (JList [])"
    by (simp_all add: scratchpad_defaults_def)
  have v0: "map_of k0 ''urls_visited'' = Some (JList (seq_of kvs ''urls_visited''))"
    using defaulted_seq [OF assms(1) dv] m0 by simp
  have u0: "map_of k0 ''urls_used'' = Some (JList (seq_of kvs ''urls_used''))"
    using defaulted_seq [OF assms(2) du] m0 by simp
  have s0: "map_of k0 ''urls_skipped'' = Some (JList (seq_of kvs ''urls_skipped''))"
    using defaulted_seq [OF assms(3) ds] m0 by simp
  define k1 where
    "k1 = AList.update ''urls_visited'' (JList (seq_of kvs ''urls_visited'' @ [url_entry e])) k0"
  have a1: "list_append (JObj k0) ''urls_visited'' (url_entry e) = Inr (JObj k1)"
    unfolding k1_def by (rule list_append_dict [OF v0])
  have u1: "map_of k1 ''urls_used'' = Some (JList (seq_of kvs ''urls_used''))"
    and s1: "map_of k1 ''urls_skipped'' = Some (JList (seq_of kvs ''urls_skipped''))"
    unfolding k1_def using u0 s0 by (simp_all add: update_conv')
  define k2 where "k2 =
     (if used e
      then AList.update ''urls_used'' (JList (seq_of kvs ''urls_used'' @ [JStr (url e)])) k1
      else if skipped e
      then AList.update ''urls_skipped'' (JList (seq_of kvs ''urls_skipped'' @ [JStr (url e)])) k1
      else k1)"
  have a2: "(if used e then list_append (JObj k1) ''urls_used'' (JStr (url e))
             else if skipped e then list_append (JObj k1) ''urls_skipped'' (JStr (url e))
             else Inr (JObj k1)) = Inr (JObj k2)"
    unfolding k2_def using list_append_dict [OF u1] list_append_dict [OF s1] by simp
  define k3 where "k3 = AList.update ''last_updated'' (JStr (timestamp e)) k2"
  have res: "apply_log_event (JObj kvs) e = Inr (JObj k3)"
    unfolding apply_log_event_def k3_def using e0 a1 a2 by simp
  have m1: "\<And>k. map_of k1 k =
     (if k = ''urls_visited'' then Some (JList (seq_of kvs ''urls_visited'' @ [url_entry e]))
      else map_of k0 k)"
    unfolding k1_def by (simp add: update_conv')
  have m2: "\<And>k. map_of k2 k =
     (if used e \<and> k = ''urls_used''
      then Some (JList (seq_of kvs ''urls_used'' @ [JStr (url e)]))
      else if \<not> used e \<and> skipped e \<and> k = ''urls_skipped''
      then Some (JList (seq_of kvs ''urls_skipped'' @ [JStr (url e)]))
      else map_of k1 k)"
    unfolding k2_def by (simp add: update_conv')
  have m3: "\<And>k. map_of k3 k =
     (if k = ''last_updated'' then Some (JStr (timestamp e)) else map_of k2 k)"
    unfolding k3_def by (simp add: update_conv')
  have f1: "map_of k3 ''urls_visited''
      = Some (JList (seq_of kvs ''urls_visited'' @ [url_entry e]))"
    by (simp add: m3 m2 m1)
  have f2: "map_of k3 ''urls_used'' =
       Some (JList (seq_of kvs ''urls_used'' @ (if used e then [JStr (url e)] else [])))"
    by (simp add: m3 m2 m1 u0)
  have f3: "map_of k3 ''urls_skipped'' =
       Some (JList (seq_of kvs ''urls_skipped''
                    @ (if \<not> used e \<and> skipped e then [JStr (url e)] else [])))"
    by (simp add: m3 m2 m1 s0)
  have f4: "map_of k3 ''last_updated'' = Some (JStr (timestamp e))"
    by (simp add: m3)
  have f5: "\<forall>k. k \<notin> {''urls_visited'', ''urls_used'', ''urls_skipped'', ''last_updated''} \<longrightarrow>
        map_of k3 k =
          (case map_of kvs k of Some v \<Rightarrow> Some v | None \<Rightarrow> map_of scratchpad_defaults k)"
    by (simp add: m3 m2 m1 m0)
  show ?thesis
    by (rule exI [of _ k3]) (intro conjI res f1 f2 f3 f4 f5)
qed

theorem apply_log_event_appends_witness:
  "is_seq_or_absent [(''urls_used'', JList [JStr ''https://a.org''])] ''urls_visited''
   \<and> is_seq_or_absent [(''urls_used'', JList [JStr ''https://a.org''])] ''urls_used''
   \<and> is_seq_or_absent [(''urls_used'', JList [JStr ''https://a.org''])] ''urls_skipped''
   \<and> result_field
        (apply_log_event (JObj [(''urls_used'', JList [JStr ''https://a.org''])]) example_entry)
        ''urls_used''
       = Inr (JList [JStr ''https://a.org'', JStr ''https://example.com''])
   \<and> result_field
        (apply_log_event (JObj [(''urls_used'', JList [JStr ''https://a.org''])]) example_entry)
        ''urls_skipped''
       = Inr (JList [])"
proof -
  have h1: "is_seq_or_absent [(''urls_used'', JList [JStr ''https://a.org''])] ''urls_visited''"
    and h2: "is_seq_or_absent [(''urls_used'', JList [JStr ''https://a.org''])] ''urls_used''"
    and h3: "is_seq_or_absent [(''urls_used'', JList [JStr ''https://a.org''])] ''urls_skipped''"
    by (simp_all add: is_seq_or_absent_def)
  from apply_log_event_appends [OF h1 h2 h3, of example_entry]
  obtain kvs' where
    r: "apply_log_event (JObj [(''urls_used'', JList [JStr ''https://a.org''])]) example_entry
        = Inr (JObj kvs')"
    and u: "map_of kvs' ''urls_used'' =
       Some (JList (seq_of [(''urls_used'', JList [JStr ''https://a.org''])] ''urls_used''
                    @ (if used example_entry then [JStr (url example_entry)] else [])))"
    and s: "map_of kvs' ''urls_skipped'' =
       Some (JList (seq_of [(''urls_used'', JList [JStr ''https://a.org''])] ''urls_skipped''
                    @ (if \<not> used example_entry \<and> skipped example_entry
                       then [JStr (url example_entry)] else [])))"
    by blast
  have "result_field (Inr (JObj kvs')) ''urls_used''
          = Inr (JList [JStr ''https://a.org'', JStr ''https://example.com''])"
    using u by (simp add: result_field_def seq_of_def example_entry_def)
  moreover have "result_field (Inr (JObj kvs')) ''urls_skipped'' = Inr (JList [])"
    using s by (simp add: result_field_def seq_of_def example_entry_def)
  ultimately show ?thesis using h1 h2 h3 r by simp
qed

text \<open>
  Claim C1 as stated fails in its first part: what \<open>urls_visited\<close> receives is not the
  entry. For the example entry, the sequence after the event is not the one holding
  the entry's dict.
\<close>

theorem apply_log_event_not_whole_entry:
  "result_field (apply_log_event (JObj []) example_entry) ''urls_visited''
     = Inr (JList [url_entry example_entry])
   \<and> url_entry example_entry \<noteq> entry_dict example_entry"
  by (simp add: apply_log_event_def ensure_scratchpad_keys_dict scratchpad_defaults_def
      list_append_def result_field_def url_entry_def entry_dict_def)

section \<open>The entry that log\_url.py builds\<close>

text \<open>
  Claim C2, as the code has it. The entry's \<open>used\<close> is the flag \<open>--used\<close> and its
  \<open>skipped\<close> is the flag \<open>--skipped\<close>; the two flags are independent, so the entry has
  both true exactly when both flags are given.
\<close>

theorem build_entry_flags:
  "used (build_entry E a) = arg_used a \<and> skipped (build_entry E a) = arg_skipped a
   \<and> ((used (build_entry E a) \<and> skipped (build_entry E a)) = (arg_used a \<and> arg_skipped a))"
  by (simp add: build_entry_def Let_def)

text \<open>
  Claim C2 as stated fails: the command line with \<open>--used\<close> and \<open>--skipped\<close> gives an
  entry with both fields true.
\<close>

theorem build_entry_used_and_skipped:
  "used (build_entry example_env both_flags) \<and> skipped (build_entry example_env both_flags)"
  by (simp add: build_entry_def Let_def both_flags_def)

section \<open>The file system\<close>

lemma lookup_append:
  "lookup fs (p @ q) = (case lookup fs p of None \<Rightarrow> None | Some n \<Rightarrow> lookup n q)"
proof (induction p arbitrary: fs)
  case Nil
  show ?case by simp
next
  case (Cons x xs)
  show ?case
  proof (cases fs)
    case (File c)
    then show ?thesis by simp
  next
    case (Dir es)
    then show ?thesis using Cons.IH by (simp split: option.splits)
  qed
qed

lemma lookup_Dir_update:
  "lookup (Dir (AList.update x n es)) (y # ys) =
     (if y = x then lookup n ys else lookup (Dir es) (y # ys))"
  by (simp add: update_conv')

lemma lookup_Dir_delete:
  "lookup (Dir (AList.delete x es)) (y # ys) =
     (if y = x then None else lookup (Dir es) (y # ys))"
  by (simp add: delete_conv')

lemma update_at_Inr:
  "update_at p f fs = Inr fs' \<Longrightarrow>
   \<exists>n n'. lookup fs p = Some n \<and> f n = Inr n' \<and> lookup fs' p = Some n'"
proof (induction p arbitrary: fs fs')
  case Nil
  then show ?case by simp
next
  case (Cons x xs)
  show ?case
  proof (cases fs)
    case (File c)
    with Cons.prems show ?thesis by simp
  next
    case (Dir es)
    show ?thesis
    proof (cases "map_of es x")
      case None
      with Cons.prems Dir show ?thesis by simp
    next
      case (Some c)
      with Cons.prems Dir obtain c' where u: "update_at xs f c = Inr c'"
        and r: "fs' = Dir (AList.update x c' es)"
        by (auto simp: bind_err_Inr_iff)
      from Cons.IH [OF u] obtain n n' where "lookup c xs = Some n" "f n = Inr n'" "lookup c' xs = Some n'"
        by blast
      then show ?thesis using Dir Some r by (simp add: update_conv')
    qed
  qed
qed

lemma update_at_frame:
  "update_at p f fs = Inr fs' \<Longrightarrow> \<not> prefix p r \<Longrightarrow> \<not> prefix r p \<Longrightarrow>
   lookup fs' r = lookup fs r"
proof (induction p arbitrary: fs fs' r)
  case Nil
  then show ?case by simp
next
  case (Cons x xs)
  from Cons.prems(3) obtain y ys where r: "r = y # ys" by (cases r) auto
  show ?case
  proof (cases fs)
    case (File c)
    with Cons.prems show ?thesis by simp
  next
    case (Dir es)
    show ?thesis
    proof (cases "map_of es x")
      case None
      with Cons.prems Dir show ?thesis by simp
    next
      case (Some c)
      with Cons.prems Dir obtain c' where u: "update_at xs f c = Inr c'"
        and res: "fs' = Dir (AList.update x c' es)"
        by (auto simp: bind_err_Inr_iff)
      show ?thesis
      proof (cases "y = x")
        case True
        with Cons.prems(2,3) r have "\<not> prefix xs ys" "\<not> prefix ys xs" by simp_all
        from Cons.IH [OF u this] show ?thesis using True r res Dir Some
          by (simp add: update_conv')
      next
        case False
        then show ?thesis using r res Dir by (simp add: update_conv')
      qed
    qed
  qed
qed

lemma update_at_below:
  assumes "update_at p f fs = Inr fs'"
  shows "\<exists>n n'. lookup fs p = Some n \<and> f n = Inr n' \<and> (\<forall>q. lookup fs' (p @ q) = lookup n' q)"
proof -
  from update_at_Inr [OF assms] obtain n n' where
    "lookup fs p = Some n" "f n = Inr n'" "lookup fs' p = Some n'" by blast
  then show ?thesis by (auto simp: lookup_append)
qed

lemma mkdirs_frame:
  "mkdirs p fs = Inr fs' \<Longrightarrow> \<not> prefix r p \<Longrightarrow> lookup fs' r = lookup fs r"
proof (induction p arbitrary: fs fs' r)
  case Nil
  then show ?case by (cases fs) simp_all
next
  case (Cons x xs)
  from Cons.prems(2) obtain y ys where r: "r = y # ys" by (cases r) auto
  show ?case
  proof (cases fs)
    case (File c)
    with Cons.prems show ?thesis by simp
  next
    case (Dir es)
    define c where "c = (case map_of es x of None \<Rightarrow> Dir [] | Some n \<Rightarrow> n)"
    from Cons.prems(1) Dir obtain c' where u: "mkdirs xs c = Inr c'"
      and res: "fs' = Dir (AList.update x c' es)"
      by (auto simp: bind_err_Inr_iff c_def)
    show ?thesis
    proof (cases "y = x")
      case True
      with Cons.prems(2) r have np: "\<not> prefix ys xs" by simp
      have "lookup c' ys = lookup c ys" by (rule Cons.IH [OF u np])
      moreover have "ys \<noteq> []" using np by auto
      then have "lookup (Dir []) ys = None" by (cases ys) simp_all
      ultimately show ?thesis using True r res Dir
        by (simp add: update_conv' c_def split: option.splits)
    next
      case False
      then show ?thesis using r res Dir by (simp add: update_conv')
    qed
  qed
qed

lemma mkdirs_is_dir:
  "mkdirs p fs = Inr fs' \<Longrightarrow> \<exists>es. lookup fs' p = Some (Dir es)"
proof (induction p arbitrary: fs fs')
  case Nil
  then show ?case by (cases fs) auto
next
  case (Cons x xs)
  show ?case
  proof (cases fs)
    case (File c)
    with Cons.prems show ?thesis by simp
  next
    case (Dir es)
    define c where "c = (case map_of es x of None \<Rightarrow> Dir [] | Some n \<Rightarrow> n)"
    from Cons.prems(1) Dir obtain c' where u: "mkdirs xs c = Inr c'"
      and res: "fs' = Dir (AList.update x c' es)"
      by (auto simp: bind_err_Inr_iff c_def)
    from Cons.IH [OF u] show ?thesis using res by (simp add: update_conv')
  qed
qed

lemma lookup_below_file:
  "lookup fs p = Some (File c) \<Longrightarrow> q \<noteq> [] \<Longrightarrow> lookup fs (p @ q) = None"
  by (cases q) (simp_all add: lookup_append)

lemma lookup_below_none:
  "lookup fs p = None \<Longrightarrow> lookup fs (p @ q) = None"
  by (simp add: lookup_append)

lemma write_text_update:
  assumes "write_text fs p c = Inr fs'"
  shows "p \<noteq> []" and "\<not> is_dir fs p"
    and "update_at (butlast p) (set_entry (last p) (File c)) fs = Inr fs'"
  using assms by (simp_all add: write_text_def split: if_splits)

lemma write_text_lookup:
  assumes "write_text fs p c = Inr fs'"
  shows "lookup fs' p = Some (File c)"
proof -
  note w = write_text_update [OF assms]
  from update_at_below [OF w(3)] obtain n n' where
    n: "lookup fs (butlast p) = Some n" and s: "set_entry (last p) (File c) n = Inr n'"
    and b: "\<And>q. lookup fs' (butlast p @ q) = lookup n' q" by blast
  from s obtain es where n': "n' = Dir (AList.update (last p) (File c) es)"
    by (cases n) (auto simp: set_entry_def)
  have "lookup fs' (butlast p @ [last p]) = Some (File c)"
    unfolding b n' by (simp add: update_conv')
  with w(1) show ?thesis by simp
qed

lemma write_text_frame:
  assumes "write_text fs p c = Inr fs'" and "\<not> prefix r p"
  shows "lookup fs' r = lookup fs r"
proof -
  note w = write_text_update [OF assms(1)]
  define d where "d = butlast p"
  define x where "x = last p"
  have p: "p = d @ [x]" using w(1) by (simp add: d_def x_def)
  from update_at_below [OF w(3)] obtain n n' where
    n: "lookup fs d = Some n" and s: "set_entry x (File c) n = Inr n'"
    and b: "\<And>q. lookup fs' (d @ q) = lookup n' q"
    unfolding d_def x_def by blast
  from s obtain es where nd: "n = Dir es" and n': "n' = Dir (AList.update x (File c) es)"
    by (cases n) (auto simp: set_entry_def)
  show ?thesis
  proof (cases "prefix d r")
    case False
    have "\<not> prefix r d" using assms(2) p by (auto simp: prefix_def)
    from update_at_frame [OF w(3)] False this show ?thesis by (simp add: d_def)
  next
    case True
    then obtain q where r: "r = d @ q" by (auto simp: prefix_def)
    with assms(2) p have "q \<noteq> []" by (auto simp: prefix_def)
    then obtain y ys where q: "q = y # ys" by (cases q) auto
    have old: "lookup fs r = lookup (Dir es) (y # ys)"
      using r q n nd by (simp add: lookup_append)
    have new: "lookup fs' r = lookup (Dir (AList.update x (File c) es)) (y # ys)"
      using r q b n' by simp
    show ?thesis
    proof (cases "y = x")
      case False
      then show ?thesis using old new by (simp add: update_conv')
    next
      case True
      with assms(2) p r q have ys: "ys \<noteq> []" by auto
      have "\<not> is_dir fs (d @ [x])" using w(2) p by simp
      then have "\<forall>es'. map_of es x \<noteq> Some (Dir es')"
        using n nd by (auto simp: is_dir_def lookup_append split: option.splits node.splits)
      then have "lookup (Dir es) (x # ys) = None"
      proof (cases "map_of es x")
        case None
        then show ?thesis by simp
      next
        case (Some a)
        assume nd': "\<forall>es'. map_of es x \<noteq> Some (Dir es')"
        with Some obtain c' where "a = File c'" by (cases a) auto
        with Some ys show ?thesis by (cases ys) simp_all
      qed
      moreover have "lookup (Dir (AList.update x (File c) es)) (x # ys) = None"
        using ys by (cases ys) (simp_all add: update_conv')
      ultimately show ?thesis using old new True by simp
    qed
  qed
qed




section \<open>Reading the Session document\<close>

text \<open>
  Claim C3. When the Session document exists and does not decode, \<open>get_current_session\<close>
  of log\_url.py raises \<open>JSONDecodeError\<close>, where the one of archive\_session.py returns
  none.
\<close>

theorem log_url_get_current_session_raises:
  assumes "lookup fs (get_local_agent_dir E @ [''research'', ''session.json'']) = Some (File text)"
      and "loads E text = None"
  shows "log_url_get_current_session E fs = Inl JSONDecodeError
         \<and> archive_get_current_session E fs = Inr JNull"
  using assms
  by (simp add: log_url_get_current_session_def archive_get_current_session_def Let_def
      exists_def load_json_def read_text_def)


theorem log_url_get_current_session_raises_witness:
  "lookup (Dir [(''work'', Dir [(''.agent'', Dir [(''research'',
       Dir [(''session.json'', File ''{'')])])])])
     (get_local_agent_dir example_env @ [''research'', ''session.json'']) = Some (File ''{'')
   \<and> loads example_env ''{'' = None
   \<and> log_url_get_current_session example_env
        (Dir [(''work'', Dir [(''.agent'', Dir [(''research'',
           Dir [(''session.json'', File ''{'')])])])]) = Inl JSONDecodeError
   \<and> archive_get_current_session example_env
        (Dir [(''work'', Dir [(''.agent'', Dir [(''research'',
           Dir [(''session.json'', File ''{'')])])])]) = Inr JNull"
proof -
  have h1: "lookup (Dir [(''work'', Dir [(''.agent'', Dir [(''research'',
       Dir [(''session.json'', File ''{'')])])])])
     (get_local_agent_dir example_env @ [''research'', ''session.json'']) = Some (File ''{'')"
    by (simp add: get_local_agent_dir_def example_env_def)
  have h2: "loads example_env ''{'' = None"
    by (simp add: example_env_def)
  from log_url_get_current_session_raises [OF h1 h2] h1 h2 show ?thesis by simp
qed

section \<open>Derived Learnings\<close>

lemma dicts_of_simps [simp]:
  "dicts_of [] = []"
  "dicts_of (JObj kvs # xs) = kvs # dicts_of xs"
  "(\<forall>kvs. x \<noteq> JObj kvs) \<Longrightarrow> dicts_of (x # xs) = dicts_of xs"
  by (simp_all add: dicts_of_def split: json.splits)









section \<open>The archive pipeline\<close>

lemma lookup_child:
  "lookup fs p = Some (Dir es) \<Longrightarrow> lookup fs (p @ [n]) = map_of es n"
  by (simp add: lookup_append split: option.splits)








section \<open>The key finding\<close>


lemma key_finding_unnamed:
  assumes "map_of kvs ''viral_candidates'' = Some (JList (x # rest))"
      and "\<forall>c. x = JObj c \<longrightarrow> map_of c ''name'' = None"
  shows "key_finding_of (JObj kvs) stats = Inr (JStr ''See report'')"
  using assms by (cases x) (simp_all add: key_finding_of_def dict_get_def)




lemma truncate_short:
  assumes "length s \<le> 40"
  shows "truncate_key_finding (JStr s) = Inr (JStr s)"
  using assms by (simp add: truncate_key_finding_def)




section \<open>The three representations of a log event\<close>











section \<open>Continuing a session\<close>

lemma incomparable_child:
  assumes "\<not> prefix L G" and "\<not> prefix G L"
  shows "\<not> prefix (G @ q) (L @ [n])" and "\<not> prefix (L @ [n]) (G @ q)"
proof -
  show "\<not> prefix (G @ q) (L @ [n])"
  proof
    assume "prefix (G @ q) (L @ [n])"
    then have "prefix G (L @ [n])" by (metis append_prefixD)
    then have "prefix G L \<or> G = L @ [n]" by (auto simp: prefix_snoc)
    with assms show False by auto
  qed
  show "\<not> prefix (L @ [n]) (G @ q)"
  proof
    assume "prefix (L @ [n]) (G @ q)"
    then have "prefix L (G @ q)" by (metis append_prefixD)
    then have "prefix L G \<or> prefix G L" by (metis prefix_append prefix_same_cases prefix_order.order_refl prefix_prefix)
    with assms show False by auto
  qed
qed

lemma copy_file_step:
  assumes c: "copy_file G L n fs = Inr fs1"
  shows "(\<forall>r. \<not> prefix r (L @ [n]) \<longrightarrow> lookup fs1 r = lookup fs r)
       \<and> lookup fs1 (L @ [n]) = (if is_file fs (G @ [n]) then lookup fs (G @ [n]) else lookup fs (L @ [n]))"
proof (cases "is_file fs (G @ [n])")
  case False
  with c have "fs1 = fs" by (simp add: copy_file_def)
  with False show ?thesis by simp
next
  case True
  then obtain t where t: "lookup fs (G @ [n]) = Some (File t)"
    by (auto simp: is_file_def split: option.splits node.splits)
  with c True have w: "write_text fs (L @ [n]) t = Inr fs1"
    by (simp add: copy_file_def read_text_def)
  from write_text_lookup [OF w] write_text_frame [OF w] True t show ?thesis by simp
qed

lemma copy_files_result:
  assumes "copy_files G L ns fs = Inr fs'" and "\<not> prefix L G" and "\<not> prefix G L"
  shows "(\<forall>r. \<not> prefix L r \<and> \<not> prefix r L \<longrightarrow> lookup fs' r = lookup fs r)
       \<and> (\<forall>n. lookup fs' (L @ [n]) =
             (if n \<in> set ns \<and> is_file fs (G @ [n]) then lookup fs (G @ [n]) else lookup fs (L @ [n])))"
  using assms(1)
proof (induction ns arbitrary: fs)
  case Nil
  then show ?case by simp
next
  case (Cons n ns)
  from Cons.prems obtain fs1 where c1: "copy_file G L n fs = Inr fs1"
    and c2: "copy_files G L ns fs1 = Inr fs'"
    by (auto simp: bind_err_Inr_iff)
  note s = copy_file_step [OF c1]
  note ih = Cons.IH [OF c2]
  have g: "lookup fs1 (G @ q) = lookup fs (G @ q)" for q
    using s incomparable_child(1) [OF assms(2,3)] by blast
  have isf: "is_file fs1 (G @ [m]) = is_file fs (G @ [m])" for m
    using g [of "[m]"] by (simp add: is_file_def)
  have out: "lookup fs' r = lookup fs r" if "\<not> prefix L r" "\<not> prefix r L" for r
  proof -
    have "\<not> prefix r (L @ [n])" using that by (auto simp: prefix_snoc)
    with s have "lookup fs1 r = lookup fs r" by blast
    with ih that show ?thesis by simp
  qed
  have inner: "lookup fs' (L @ [m]) =
      (if m \<in> set (n # ns) \<and> is_file fs (G @ [m]) then lookup fs (G @ [m]) else lookup fs (L @ [m]))"
    for m
  proof -
    from ih have a: "lookup fs' (L @ [m]) =
       (if m \<in> set ns \<and> is_file fs1 (G @ [m]) then lookup fs1 (G @ [m]) else lookup fs1 (L @ [m]))"
      by blast
    have b: "lookup fs1 (L @ [m]) =
       (if m = n \<and> is_file fs (G @ [n]) then lookup fs (G @ [n]) else lookup fs (L @ [m]))"
    proof (cases "m = n")
      case True
      with s show ?thesis by simp
    next
      case False
      then have "\<not> prefix (L @ [m]) (L @ [n])" by simp
      with s False show ?thesis by simp
    qed
    show ?thesis unfolding a b isf g by auto
  qed
  from out inner show ?case by blast
qed

lemma resumed_session_fields:
  assumes "resumed_session E session = Inr s1" and "set_local_path E L s1 = Inr s2"
  shows "py_getitem s2 ''status'' = Inr (JStr ''resumed'')"
    and "py_getitem s2 ''resumed_at'' = Inr (JStr (now_iso E))"
    and "\<forall>k. k \<notin> {''status'', ''resumed_at'', ''paths''} \<longrightarrow> py_getitem s2 k = py_getitem session k"
proof -
  from assms(1) obtain kvs where s: "session = JObj kvs"
    by (cases session) (simp_all add: resumed_session_def)
  with assms(1) have s1: "s1 = JObj (AList.update ''resumed_at'' (JStr (now_iso E))
       (AList.update ''status'' (JStr ''resumed'') kvs))"
    by (simp add: resumed_session_def)
  from assms(2) s1 obtain paths' where s2: "s2 = JObj (AList.update ''paths'' paths'
       (AList.update ''resumed_at'' (JStr (now_iso E))
         (AList.update ''status'' (JStr ''resumed'') kvs)))"
    by (auto simp: set_local_path_def bind_err_Inr_iff)
  show "py_getitem s2 ''status'' = Inr (JStr ''resumed'')"
    by (simp add: s2 update_conv')
  show "py_getitem s2 ''resumed_at'' = Inr (JStr (now_iso E))"
    by (simp add: s2 update_conv')
  show "\<forall>k. k \<notin> {''status'', ''resumed_at'', ''paths''} \<longrightarrow> py_getitem s2 k = py_getitem session k"
    by (simp add: s2 s update_conv')
qed

lemma load_session_steps:
  assumes "load_session E sid fs = Inr (s', fs')"
  shows "\<exists>session s1 fs1 names fs2.
     load_json E fs (joinpath E (get_agent_core_dir E @ [''sessions'']) sid @ [''session.json''])
       = Inr session
     \<and> resumed_session E session = Inr s1
     \<and> mkdirs (get_local_agent_dir E @ [''research'']) fs = Inr fs1
     \<and> iterdir fs1 (joinpath E (get_agent_core_dir E @ [''sessions'']) sid) = Inr names
     \<and> copy_files (joinpath E (get_agent_core_dir E @ [''sessions'']) sid)
           (get_local_agent_dir E @ [''research'']) names fs1 = Inr fs2
     \<and> set_local_path E (get_local_agent_dir E @ [''research'']) s1 = Inr s'
     \<and> write_text fs2 ((get_local_agent_dir E @ [''research'']) @ [''session.json''])
           (dumps E s') = Inr fs'"
proof -
  define L where "L = get_local_agent_dir E @ [''research'']"
  define G where "G = joinpath E (get_agent_core_dir E @ [''sessions'']) sid"
  have e: "load_session E sid fs =
      (if \<not> exists fs (G @ [''session.json'']) then Inl FileNotFoundError
       else bind_err (load_json E fs (G @ [''session.json''])) (\<lambda>session.
            bind_err (resumed_session E session) (\<lambda>session1.
            bind_err (mkdirs L fs) (\<lambda>fs1.
            bind_err (iterdir fs1 G) (\<lambda>names.
            bind_err (copy_files G L names fs1) (\<lambda>fs2.
            bind_err (set_local_path E L session1) (\<lambda>session2.
            bind_err (write_text fs2 (L @ [''session.json'']) (dumps E session2)) (\<lambda>fs3.
              Inr (session2, fs3)))))))))"
    by (simp add: load_session_def Let_def L_def G_def)
  from assms obtain session where 1: "load_json E fs (G @ [''session.json'']) = Inr session"
    and r1: "bind_err (resumed_session E session) (\<lambda>session1.
            bind_err (mkdirs L fs) (\<lambda>fs1.
            bind_err (iterdir fs1 G) (\<lambda>names.
            bind_err (copy_files G L names fs1) (\<lambda>fs2.
            bind_err (set_local_path E L session1) (\<lambda>session2.
            bind_err (write_text fs2 (L @ [''session.json'']) (dumps E session2)) (\<lambda>fs3.
              Inr (session2, fs3))))))) = Inr (s', fs')"
    unfolding e by (cases "load_json E fs (G @ [''session.json''])") (simp_all split: if_splits)
  from r1 obtain s1 where 2: "resumed_session E session = Inr s1"
    and r2: "bind_err (mkdirs L fs) (\<lambda>fs1.
            bind_err (iterdir fs1 G) (\<lambda>names.
            bind_err (copy_files G L names fs1) (\<lambda>fs2.
            bind_err (set_local_path E L s1) (\<lambda>session2.
            bind_err (write_text fs2 (L @ [''session.json'']) (dumps E session2)) (\<lambda>fs3.
              Inr (session2, fs3)))))) = Inr (s', fs')"
    by (cases "resumed_session E session") simp_all
  from r2 obtain fs1 where 3: "mkdirs L fs = Inr fs1"
    and r3: "bind_err (iterdir fs1 G) (\<lambda>names.
            bind_err (copy_files G L names fs1) (\<lambda>fs2.
            bind_err (set_local_path E L s1) (\<lambda>session2.
            bind_err (write_text fs2 (L @ [''session.json'']) (dumps E session2)) (\<lambda>fs3.
              Inr (session2, fs3))))) = Inr (s', fs')"
    by (cases "mkdirs L fs") simp_all
  from r3 obtain names where 4: "iterdir fs1 G = Inr names"
    and r4: "bind_err (copy_files G L names fs1) (\<lambda>fs2.
            bind_err (set_local_path E L s1) (\<lambda>session2.
            bind_err (write_text fs2 (L @ [''session.json'']) (dumps E session2)) (\<lambda>fs3.
              Inr (session2, fs3)))) = Inr (s', fs')"
    by (cases "iterdir fs1 G") simp_all
  from r4 obtain fs2 where 5: "copy_files G L names fs1 = Inr fs2"
    and r5: "bind_err (set_local_path E L s1) (\<lambda>session2.
            bind_err (write_text fs2 (L @ [''session.json'']) (dumps E session2)) (\<lambda>fs3.
              Inr (session2, fs3))) = Inr (s', fs')"
    by (cases "copy_files G L names fs1") simp_all
  from r5 obtain s2 where 6: "set_local_path E L s1 = Inr s2"
    and r6: "bind_err (write_text fs2 (L @ [''session.json'']) (dumps E s2)) (\<lambda>fs3.
              Inr (s2, fs3)) = Inr (s', fs')"
    by (cases "set_local_path E L s1") simp_all
  from r6 have 7: "s2 = s'" and 8: "write_text fs2 (L @ [''session.json'']) (dumps E s') = Inr fs'"
    by (cases "write_text fs2 (L @ [''session.json'']) (dumps E s2)"; simp)+
  from 1 2 3 4 5 6 7 8 show ?thesis
    unfolding L_def G_def by blast
qed


text \<open>
  Claim C10. When \<open>load_session\<close> returns, the local research directory and the global
  session directory not lying one inside the other: every regular file at the top of the
  global session directory, other than the Session document, is in the local directory
  with the same content; a name that is no regular file there (a subdirectory, or
  nothing) has in the local directory the entry it had before; the local Session document
  is the encoding of the returned session, which has status \<open>resumed\<close>, the time of
  resumption in \<open>resumed_at\<close>, and apart from these and \<open>paths\<close> the fields of the global
  Session document; and the global session directory is as it was.
\<close>

theorem load_session_copies_files:
  assumes "load_session E sid fs = Inr (s', fs')"
      and "\<not> prefix (get_local_agent_dir E @ [''research''])
                    (joinpath E (get_agent_core_dir E @ [''sessions'']) sid)"
      and "\<not> prefix (joinpath E (get_agent_core_dir E @ [''sessions'']) sid)
                    (get_local_agent_dir E @ [''research''])"
  shows "(\<forall>n c. n \<noteq> ''session.json''
            \<and> lookup fs (joinpath E (get_agent_core_dir E @ [''sessions'']) sid @ [n]) = Some (File c)
          \<longrightarrow> lookup fs' ((get_local_agent_dir E @ [''research'']) @ [n]) = Some (File c))
    \<and> (\<forall>n. n \<noteq> ''session.json''
            \<and> \<not> is_file fs (joinpath E (get_agent_core_dir E @ [''sessions'']) sid @ [n])
          \<longrightarrow> lookup fs' ((get_local_agent_dir E @ [''research'']) @ [n])
              = lookup fs ((get_local_agent_dir E @ [''research'']) @ [n]))
    \<and> (\<exists>session.
          load_json E fs (joinpath E (get_agent_core_dir E @ [''sessions'']) sid @ [''session.json''])
            = Inr session
          \<and> lookup fs' ((get_local_agent_dir E @ [''research'']) @ [''session.json''])
              = Some (File (dumps E s'))
          \<and> py_getitem s' ''status'' = Inr (JStr ''resumed'')
          \<and> py_getitem s' ''resumed_at'' = Inr (JStr (now_iso E))
          \<and> (\<forall>k. k \<notin> {''status'', ''resumed_at'', ''paths''}
                \<longrightarrow> py_getitem s' k = py_getitem session k))
    \<and> lookup fs' (joinpath E (get_agent_core_dir E @ [''sessions'']) sid)
        = lookup fs (joinpath E (get_agent_core_dir E @ [''sessions'']) sid)"
proof -
  define L where "L = get_local_agent_dir E @ [''research'']"
  define G where "G = joinpath E (get_agent_core_dir E @ [''sessions'']) sid"
  note LG = assms(2,3) [folded L_def G_def]
  from load_session_steps [OF assms(1), folded L_def G_def]
  obtain session s1 fs1 names fs2 where
    lj: "load_json E fs (G @ [''session.json'']) = Inr session"
    and rs: "resumed_session E session = Inr s1"
    and mk: "mkdirs L fs = Inr fs1"
    and it: "iterdir fs1 G = Inr names"
    and cf: "copy_files G L names fs1 = Inr fs2"
    and sl: "set_local_path E L s1 = Inr s'"
    and wr: "write_text fs2 (L @ [''session.json'']) (dumps E s') = Inr fs'"
    by (elim exE conjE)
  have m: "lookup fs1 r = lookup fs r" if "\<not> prefix r L" for r
    using mkdirs_frame [OF mk that] .
  have mg: "lookup fs1 (G @ q) = lookup fs (G @ q)" for q
  proof (rule m)
    show "\<not> prefix (G @ q) L" using LG(2) by (metis append_prefixD)
  qed
  have ml: "lookup fs1 (L @ [n]) = lookup fs (L @ [n])" for n
    by (rule m) simp
  have isf: "is_file fs1 (G @ [n]) = is_file fs (G @ [n])" for n
    using mg [of "[n]"] by (simp add: is_file_def)
  from it obtain es where ge: "lookup fs1 G = Some (Dir es)"
    and names: "names = map fst (AList.clearjunk es)"
    by (auto simp: iterdir_def split: option.splits node.splits)
  have inn: "n \<in> set names" if "lookup fs1 (G @ [n]) \<noteq> None" for n
  proof -
    from that ge have "map_of es n \<noteq> None" by (simp add: lookup_child)
    then have "n \<in> fst ` set es" by (simp add: map_of_eq_None_iff)
    then show ?thesis using names clearjunk_keys_set [of es] by simp
  qed
  note c = copy_files_result [OF cf LG]
  have w: "lookup fs' r = lookup fs2 r" if "\<not> prefix r (L @ [''session.json''])" for r
    using write_text_frame [OF wr that] .
  have a: "lookup fs' (L @ [n]) = Some (File t)"
    if "n \<noteq> ''session.json''" "lookup fs (G @ [n]) = Some (File t)" for n t
  proof -
    have "lookup fs' (L @ [n]) = lookup fs2 (L @ [n])" using that(1) by (intro w) simp
    moreover have "lookup fs1 (G @ [n]) = Some (File t)" using that(2) mg [of "[n]"] by simp
    moreover from this have "n \<in> set names" "is_file fs1 (G @ [n])"
      using inn [of n] by (simp_all add: is_file_def)
    ultimately show ?thesis using c by simp
  qed
  have b: "lookup fs' (L @ [n]) = lookup fs (L @ [n])"
    if "n \<noteq> ''session.json''" "\<not> is_file fs (G @ [n])" for n
  proof -
    have "lookup fs' (L @ [n]) = lookup fs2 (L @ [n])" using that(1) by (intro w) simp
    also have "\<dots> = lookup fs1 (L @ [n])" using c that(2) isf by simp
    also have "\<dots> = lookup fs (L @ [n])" by (rule ml)
    finally show ?thesis .
  qed
  have d: "lookup fs' G = lookup fs G"
  proof -
    have "\<not> prefix G (L @ [''session.json''])"
      using incomparable_child(1) [OF LG, of "[]"] by simp
    then have "lookup fs' G = lookup fs2 G" by (rule w)
    also have "\<dots> = lookup fs1 G" using c LG by blast
    also have "\<dots> = lookup fs G" using mg [of "[]"] by simp
    finally show ?thesis .
  qed
  note f = resumed_session_fields [OF rs sl]
  have cc: "\<exists>session.
          load_json E fs (G @ [''session.json'']) = Inr session
          \<and> lookup fs' (L @ [''session.json'']) = Some (File (dumps E s'))
          \<and> py_getitem s' ''status'' = Inr (JStr ''resumed'')
          \<and> py_getitem s' ''resumed_at'' = Inr (JStr (now_iso E))
          \<and> (\<forall>k. k \<notin> {''status'', ''resumed_at'', ''paths''}
                \<longrightarrow> py_getitem s' k = py_getitem session k)"
    using lj write_text_lookup [OF wr] f by blast
  show ?thesis
    unfolding L_def [symmetric] G_def [symmetric]
    by (intro conjI allI impI; (elim conjE)?) (rule a, assumption+, rule b, assumption+, rule cc, rule d)
qed

theorem load_session_copies_files_witness:
  "\<exists>s' fs'. load_session example_env ''agents-20260105-103000-ab12cd'' example_global_fs
        = Inr (s', fs')
     \<and> lookup fs' [''work'', ''.agent'', ''research'', ''scratchpad.json'']
         = Some (File ''<scratchpad>'')
     \<and> lookup fs' [''work'', ''.agent'', ''research'', ''drafts''] = None
     \<and> lookup fs' [''work'', ''.agent'', ''research'', ''session.json'']
         = Some (File (dumps example_env s'))
     \<and> py_getitem s' ''status'' = Inr (JStr ''resumed'')
     \<and> lookup fs' [''home'', ''.agent-core'', ''sessions'', ''agents-20260105-103000-ab12cd'',
                    ''session.json''] = Some (File ''<session>'')"
proof -
  let ?sid = "''agents-20260105-103000-ab12cd''"
  let ?L = "get_local_agent_dir example_env @ [''research'']"
  let ?G = "joinpath example_env (get_agent_core_dir example_env @ [''sessions'']) ?sid"
  have L: "?L = [''work'', ''.agent'', ''research'']"
    by (simp add: get_local_agent_dir_def example_env_def)
  have G: "?G = [''home'', ''.agent-core'', ''sessions'', ?sid]"
    by (simp add: get_agent_core_dir_def example_env_def)
  have "case load_session example_env ?sid example_global_fs of
          Inr r \<Rightarrow> True | Inl e \<Rightarrow> False"
    by code_simp
  then obtain s' fs' where h: "load_session example_env ?sid example_global_fs = Inr (s', fs')"
    by (cases "load_session example_env ?sid example_global_fs") auto
  have d1: "\<not> prefix ?L ?G" and d2: "\<not> prefix ?G ?L"
    unfolding L G by simp_all
  note t = load_session_copies_files [OF h d1 d2]
  have g1: "''scratchpad.json'' \<noteq> ''session.json''
      \<and> lookup example_global_fs (?G @ [''scratchpad.json'']) = Some (File ''<scratchpad>'')"
    unfolding G by (simp add: example_global_fs_def)
  have g2: "''drafts'' \<noteq> ''session.json'' \<and> \<not> is_file example_global_fs (?G @ [''drafts''])"
    unfolding G by (simp add: example_global_fs_def is_file_def)
  have a: "lookup fs' (?L @ [''scratchpad.json'']) = Some (File ''<scratchpad>'')"
    by (rule t [THEN conjunct1, rule_format, OF g1])
  have "lookup fs' (?L @ [''drafts'']) = lookup example_global_fs (?L @ [''drafts''])"
    by (rule t [THEN conjunct2, THEN conjunct1, rule_format, OF g2])
  also have "\<dots> = None"
    unfolding L by (simp add: example_global_fs_def)
  finally have b: "lookup fs' (?L @ [''drafts'']) = None" .
  from t [THEN conjunct2, THEN conjunct2, THEN conjunct1]
  obtain session where
    c: "lookup fs' (?L @ [''session.json'']) = Some (File (dumps example_env s'))"
    and st: "py_getitem s' ''status'' = Inr (JStr ''resumed'')"
    by (elim exE conjE)
  have "lookup fs' ?G = lookup example_global_fs ?G"
    by (rule t [THEN conjunct2, THEN conjunct2, THEN conjunct2])
  then have "lookup fs' (?G @ [''session.json''])
      = lookup example_global_fs (?G @ [''session.json''])"
    by (simp only: lookup_append)
  also have "\<dots> = Some (File ''<session>'')"
    unfolding G by (simp add: example_global_fs_def)
  finally have d: "lookup fs' (?G @ [''session.json'']) = Some (File ''<session>'')" .
  show ?thesis
    using h a b c st d unfolding L G append.simps
    by (intro exI [of _ s'] exI [of _ fs'] conjI)
qed

end
